theory Spec2Isabelle
  imports Main
begin

section \<open>Strings and whitespace splitting\<close>

text \<open>
  A Go string is modelled as the list of its code points (runes); \<open>runes\<close> embeds an
  ASCII literal. \<open>IsSpace\<close> is \<^verbatim>\<open>unicode.IsSpace\<close>: in Latin-1 the characters
  TAB, LF, VT, FF, CR, SPACE, U+0085 and U+00A0, beyond it the White_Space property
  (U+1680, U+2000..U+200A, U+2028, U+2029, U+202F, U+205F, U+3000).
\<close>

type_synonym rune = nat
type_synonym gostring = "rune list"

definition runes :: "string \<Rightarrow> gostring" where
  "runes s = map of_char s"

definition IsSpace :: "rune \<Rightarrow> bool" where
  "IsSpace r =
     (if r \<le> 255 then r \<in> {9, 10, 11, 12, 13, 32, 133, 160}
      else r = 5760 \<or> (8192 \<le> r \<and> r \<le> 8202) \<or> r \<in> {8232, 8233, 8239, 8287, 12288})"

text \<open>
  \<^verbatim>\<open>strings.Fields(arg)\<close>, called by \<open>Run\<close> to turn the argument string into the
  argument slice. The library scans the string once, left to right, remembering where the
  current field started; \<open>fields_from cur s\<close> is that scan with \<open>cur\<close> the part of
  the current field read so far (empty while spaces are being skipped).
\<close>

fun fields_from :: "gostring \<Rightarrow> gostring \<Rightarrow> gostring list" where
  "fields_from cur [] = (if cur = [] then [] else [cur])"
| "fields_from cur (c # cs) =
     (if IsSpace c then (if cur = [] then fields_from [] cs else cur # fields_from [] cs)
      else fields_from (cur @ [c]) cs)"

definition Fields :: "gostring \<Rightarrow> gostring list" where
  "Fields s = fields_from [] s"

section \<open>Commands, hooks and the runner\<close>

text \<open>
  Go's \<^verbatim>\<open>error\<close> values are opaque; \<open>None :: error option\<close> is \<^verbatim>\<open>nil\<close>.
\<close>

datatype error = Error string

datatype signal = SIGKILL | SIGTERM | SIGINT

text \<open>
  \<^verbatim>\<open>os.Process\<close>: the handle of a started process. \<open>sent\<close> lists the signals
  requested through the handle, oldest first.
\<close>

record os_Process =
  Pid :: nat
  sent :: "signal list"

definition Kill :: "os_Process \<Rightarrow> os_Process" where
  "Kill p = p\<lparr>sent := sent p @ [SIGKILL]\<rparr>"

text \<open>
  \<^verbatim>\<open>exec.Cmd\<close>, the fields this package and its hooks touch. \<open>Process\<close> is
  \<open>None\<close> (nil) until the command has been started.
\<close>

record Cmd =
  Path :: gostring
  Args :: "gostring list"
  Env :: "gostring list"
  Process :: "os_Process option"

text \<open>\<^verbatim>\<open>exec.Command(name, arg...)\<close>: \<open>Args\<close> holds the name followed by the arguments.\<close>

definition Command :: "gostring \<Rightarrow> gostring list \<Rightarrow> Cmd" where
  "Command name arg = \<lparr>Path = name, Args = name # arg, Env = [], Process = None\<rparr>"

text \<open>
  \<^verbatim>\<open>type Hook func(cmd *exec.Cmd)\<close> and \<^verbatim>\<open>type ErrHook func(cmd *exec.Cmd) error\<close>.
  A hook receives the command by pointer, so it is a function from the command to the
  command it leaves behind (an \<open>ErrHook\<close> also returns its error). The result \<open>None\<close>
  is a hook that panics.
\<close>

type_synonym Hook = "Cmd \<Rightarrow> Cmd option"
type_synonym ErrHook = "Cmd \<Rightarrow> (error option \<times> Cmd) option"

text \<open>\<^verbatim>\<open>type HookedRunner struct\<close>; a nil hook is \<open>None\<close>.\<close>

record HookedRunner =
  path :: gostring
  pre :: "ErrHook option"
  post :: "Hook option"
  exit :: "Hook option"

text \<open>
  The default exit hook of \<open>HookRunner\<close>: \<^verbatim>\<open>func(cmd *exec.Cmd) { cmd.Process.Kill() }\<close>.
  On a nil \<open>Process\<close> the call dereferences nil and panics.
\<close>

definition kill_hook :: Hook where
  "kill_hook c =
     (case Process c of
        None \<Rightarrow> None
      | Some p \<Rightarrow> Some (c\<lparr>Process := Some (Kill p)\<rparr>))"

type_synonym runnerOption = "HookedRunner \<Rightarrow> HookedRunner"

definition default_runner :: HookedRunner where
  "default_runner = \<lparr>path = runes ''ffmpeg'', pre = None, post = None, exit = Some kill_hook\<rparr>"

text \<open>\<open>HookRunner\<close>: the options are applied to the default runner, first to last.\<close>

definition HookRunner :: "runnerOption list \<Rightarrow> HookedRunner" where
  "HookRunner opts = foldl (\<lambda>r o'. o' r) default_runner opts"

definition CustomPath :: "gostring \<Rightarrow> runnerOption" where
  "CustomPath p = (\<lambda>r. r\<lparr>path := p\<rparr>)"

definition PreHook :: "ErrHook option \<Rightarrow> runnerOption" where
  "PreHook h = (\<lambda>r. r\<lparr>pre := h\<rparr>)"

definition PostHook :: "Hook option \<Rightarrow> runnerOption" where
  "PostHook h = (\<lambda>r. r\<lparr>post := h\<rparr>)"

definition DoneHook :: "Hook option \<Rightarrow> runnerOption" where
  "DoneHook h = (\<lambda>r. r\<lparr>exit := h\<rparr>)"

section \<open>The operating system\<close>

text \<open>
  What \<open>Run\<close> asks of the system: \<^verbatim>\<open>exec.LookPath\<close> resolves a name or fails, and
  starting a command either fails or creates a process with some pid.
\<close>

record os =
  LookPath :: "gostring \<Rightarrow> error + gostring"
  spawn :: "Cmd \<Rightarrow> error + nat"

text \<open>
  \<^verbatim>\<open>cmd.Start()\<close>: refuses a command that already has a process, otherwise asks the
  system; on success the command holds the new process.
\<close>

definition cmd_Start :: "os \<Rightarrow> Cmd \<Rightarrow> error option \<times> Cmd" where
  "cmd_Start sys c =
     (if Process c \<noteq> None then (Some (Error ''exec: already started''), c)
      else case spawn sys c of
             Inl e \<Rightarrow> (Some e, c)
           | Inr pid \<Rightarrow> (None, c\<lparr>Process := Some \<lparr>Pid = pid, sent = []\<rparr>\<rparr>))"

section \<open>Run\<close>

text \<open>
  The process, as \<open>Run\<close> sees it: not created, running, or terminated with the value
  \<^verbatim>\<open>cmd.Wait()\<close> reports for it (\<open>None\<close> for a clean exit, an error for a non-zero
  status or a signal).
\<close>

datatype proc_status = NotStarted | Alive | Exited "error option"

text \<open>
  Where the calling goroutine stands: blocked in \<^verbatim>\<open>cmd.Wait()\<close>, before
  \<^verbatim>\<open>close(cleanup)\<close>, before \<^verbatim>\<open>return err\<close>, returned with a value, or
  unwound by a panic of a hook it called. The watcher goroutine is not spawned, blocked in
  its \<^verbatim>\<open>select\<close>, finished, or dead from a panic of the exit hook (which takes the
  whole program down).
\<close>

datatype main_pc = Launching | AtWait | AtClose | AtReturn | Returned "error option" | Panicked

datatype watcher_pc = NotSpawned | AtSelect | Finished | WPanicked

text \<open>What \<open>Run\<close> did, in order.\<close>

datatype event =
    LookPath_call gostring
  | Command_call gostring "gostring list"
  | pre_call Cmd
  | Start_call Cmd
  | post_call Cmd
  | go_watcher
  | select_done
  | exit_call Cmd
  | select_cleanup
  | Wait_return "error option"
  | close_cleanup

record state =
  recv :: HookedRunner
  cmd :: "Cmd option"
  err :: "error option"
  proc :: proc_status
  ctx_done :: bool
  cleanup :: bool
  mpc :: main_pc
  wpc :: watcher_pc
  trace :: "event list"

definition emit :: "event \<Rightarrow> state \<Rightarrow> state" where
  "emit ev s = s\<lparr>trace := trace s @ [ev]\<rparr>"

definition return_err :: "error \<Rightarrow> state \<Rightarrow> state" where
  "return_err e s = s\<lparr>err := Some e, mpc := Returned (Some e)\<rparr>"

subsection \<open>From the call to the wait\<close>

text \<open>
  \<^verbatim>\<open>func (r *HookedRunner) Run(ctx context.Context, arg string) error\<close>, lines 41 to 88
  of \<^verbatim>\<open>ffmpeg.go\<close> (the other copy of the package calls the type \<^verbatim>\<open>runner\<close> and the
  constructor \<^verbatim>\<open>NewRunner\<close>; the bodies are the same). The sequential part is one
  definition per block of the source, each handing over to the next:
  \<^item> \<open>Run_launch\<close>: \<^verbatim>\<open>exec.LookPath(r.path)\<close> with its error return, \<^verbatim>\<open>strings.Fields(arg)\<close>
    and \<^verbatim>\<open>exec.Command(path, args...)\<close> (lines 42 to 50);
  \<^item> \<open>Run_pre\<close>: the call of \<^verbatim>\<open>r.pre\<close> when it is not nil, with its error return
    (lines 52 to 56);
  \<^item> \<open>Run_start\<close>: \<^verbatim>\<open>cmd.Start()\<close> with its error return (lines 58 to 60);
  \<^item> \<open>Run_post\<close>: the call of \<^verbatim>\<open>r.post\<close> when it is not nil (lines 62 to 64);
  \<^item> \<open>Run_watch\<close>: the two channels and the \<^verbatim>\<open>go\<close> statement (lines 67 to 80), which
    leave the caller at \<^verbatim>\<open>cmd.Wait()\<close> and the watcher at its \<^verbatim>\<open>select\<close>.
\<close>

definition Run_watch :: "state \<Rightarrow> state" where
  "Run_watch s = (emit go_watcher s)\<lparr>wpc := AtSelect, mpc := AtWait\<rparr>"

definition Run_post :: "Cmd \<Rightarrow> state \<Rightarrow> state" where
  "Run_post c s =
     (case post (recv s) of
        None \<Rightarrow> Run_watch s
      | Some h \<Rightarrow>
          (case h c of
             None \<Rightarrow> (emit (post_call c) s)\<lparr>mpc := Panicked\<rparr>
           | Some c' \<Rightarrow> Run_watch ((emit (post_call c) s)\<lparr>cmd := Some c'\<rparr>)))"

definition Run_start :: "os \<Rightarrow> Cmd \<Rightarrow> state \<Rightarrow> state" where
  "Run_start sys c s =
     (case cmd_Start sys c of
        (Some e, c') \<Rightarrow> return_err e ((emit (Start_call c) s)\<lparr>cmd := Some c'\<rparr>)
      | (None, c') \<Rightarrow> Run_post c' ((emit (Start_call c) s)\<lparr>cmd := Some c', proc := Alive\<rparr>))"

definition Run_pre :: "os \<Rightarrow> Cmd \<Rightarrow> state \<Rightarrow> state" where
  "Run_pre sys c s =
     (case pre (recv s) of
        None \<Rightarrow> Run_start sys c s
      | Some h \<Rightarrow>
          (case h c of
             None \<Rightarrow> (emit (pre_call c) s)\<lparr>mpc := Panicked\<rparr>
           | Some (Some e, c') \<Rightarrow> return_err e ((emit (pre_call c) s)\<lparr>cmd := Some c'\<rparr>)
           | Some (None, c') \<Rightarrow> Run_start sys c' ((emit (pre_call c) s)\<lparr>cmd := Some c'\<rparr>)))"

text \<open>
  \<open>fired\<close> says whether the context was already done when \<open>Run\<close> was called.
\<close>

definition Run_entry :: "HookedRunner \<Rightarrow> bool \<Rightarrow> state" where
  "Run_entry r fired =
     \<lparr>recv = r, cmd = None, err = None, proc = NotStarted, ctx_done = fired,
      cleanup = False, mpc = Launching, wpc = NotSpawned, trace = []\<rparr>"

definition Run_launch :: "os \<Rightarrow> HookedRunner \<Rightarrow> bool \<Rightarrow> gostring \<Rightarrow> state" where
  "Run_launch sys r fired arg =
     (let s = emit (LookPath_call (path r)) (Run_entry r fired) in
      case LookPath sys (path r) of
        Inl e \<Rightarrow> return_err e s
      | Inr p \<Rightarrow>
          (let args = Fields arg; c = Command p args
           in Run_pre sys c ((emit (Command_call p args) s)\<lparr>cmd := Some c\<rparr>)))"

subsection \<open>The race between the wait and the watcher\<close>

text \<open>
  After the watcher is spawned two goroutines run, and the context and the process change
  on their own. An action is one atomic step of one of them:
  \<^item> \<open>Cancel\<close>: the context's done channel is closed;
  \<^item> \<open>ProcExit e\<close>: the running process terminates, and \<^verbatim>\<open>cmd.Wait()\<close> will report \<open>e\<close>;
  \<^item> \<open>WatchDone\<close>: the watcher's \<^verbatim>\<open>select\<close> takes \<^verbatim>\<open>case <-done\<close> and calls the exit hook
    if there is one;
  \<^item> \<open>WatchCleanup\<close>: the \<^verbatim>\<open>select\<close> takes \<^verbatim>\<open>case <-cleanup\<close>;
  \<^item> \<open>MainWait\<close>: \<^verbatim>\<open>cmd.Wait()\<close> returns; \<open>MainClose\<close>: \<^verbatim>\<open>close(cleanup)\<close>;
    \<open>MainReturn\<close>: \<^verbatim>\<open>return err\<close>.
  A \<^verbatim>\<open>select\<close> case can be taken when its channel is closed; when both are, either may be
  taken (Go chooses among the ready cases at random). The watcher reaches its \<^verbatim>\<open>select\<close>
  whenever it is first scheduled, which may be at any time after the \<^verbatim>\<open>go\<close> statement.
  A panic of the exit hook in the watcher ends the program, so the caller takes no step
  after it. \<open>step a s\<close> is \<open>None\<close> when \<open>a\<close> cannot happen in \<open>s\<close>.
\<close>

datatype action =
  Cancel | ProcExit "error option" | WatchDone | WatchCleanup | MainWait | MainClose | MainReturn

definition watch_done :: "state \<Rightarrow> state option" where
  "watch_done s =
     (case cmd s of
        None \<Rightarrow> None
      | Some c \<Rightarrow>
          (case exit (recv s) of
             None \<Rightarrow> Some ((emit select_done s)\<lparr>wpc := Finished\<rparr>)
           | Some h \<Rightarrow>
               (case h c of
                  None \<Rightarrow> Some ((emit (exit_call c) (emit select_done s))\<lparr>wpc := WPanicked\<rparr>)
                | Some c' \<Rightarrow>
                    Some ((emit (exit_call c) (emit select_done s))
                            \<lparr>cmd := Some c', wpc := Finished\<rparr>))))"

fun step :: "action \<Rightarrow> state \<Rightarrow> state option" where
  "step Cancel s = (if ctx_done s then None else Some (s\<lparr>ctx_done := True\<rparr>))"
| "step (ProcExit e) s = (if proc s = Alive then Some (s\<lparr>proc := Exited e\<rparr>) else None)"
| "step WatchDone s = (if wpc s = AtSelect \<and> ctx_done s then watch_done s else None)"
| "step WatchCleanup s =
     (if wpc s = AtSelect \<and> cleanup s then Some ((emit select_cleanup s)\<lparr>wpc := Finished\<rparr>)
      else None)"
| "step MainWait s =
     (if mpc s = AtWait \<and> wpc s \<noteq> WPanicked
      then (case proc s of
              Exited e \<Rightarrow> Some ((emit (Wait_return e) s)\<lparr>err := e, mpc := AtClose\<rparr>)
            | _ \<Rightarrow> None)
      else None)"
| "step MainClose s =
     (if mpc s = AtClose \<and> wpc s \<noteq> WPanicked
      then Some ((emit close_cleanup s)\<lparr>cleanup := True, mpc := AtReturn\<rparr>)
      else None)"
| "step MainReturn s =
     (if mpc s = AtReturn \<and> wpc s \<noteq> WPanicked then Some (s\<lparr>mpc := Returned (err s)\<rparr>)
      else None)"

text \<open>A schedule is the list of actions of a run; \<open>exec\<close> carries it out.\<close>

fun exec :: "action list \<Rightarrow> state \<Rightarrow> state option" where
  "exec [] s = Some s"
| "exec (a # as) s = (case step a s of None \<Rightarrow> None | Some s' \<Rightarrow> exec as s')"

definition Run :: "os \<Rightarrow> HookedRunner \<Rightarrow> bool \<Rightarrow> gostring \<Rightarrow> action list \<Rightarrow> state option" where
  "Run sys r fired arg sch = exec sch (Run_launch sys r fired arg)"

subsection \<open>Observations on a run\<close>

text \<open>How often the exit hook has been called.\<close>

fun is_exit_call :: "event \<Rightarrow> bool" where
  "is_exit_call (exit_call c) = True"
| "is_exit_call _ = False"

definition exit_calls :: "state \<Rightarrow> nat" where
  "exit_calls s = length (filter is_exit_call (trace s))"

fun is_Wait_return :: "event \<Rightarrow> bool" where
  "is_Wait_return (Wait_return e) = True"
| "is_Wait_return _ = False"

definition Wait_returns :: "state \<Rightarrow> nat" where
  "Wait_returns s = length (filter is_Wait_return (trace s))"


fun is_ProcExit :: "action \<Rightarrow> bool" where
  "is_ProcExit (ProcExit e) = True"
| "is_ProcExit _ = False"

fun exit_before_cancel :: "action list \<Rightarrow> state \<Rightarrow> bool" where
  "exit_before_cancel [] s = False"
| "exit_before_cancel (a # as) s =
     (case step a s of
        None \<Rightarrow> False
      | Some s' \<Rightarrow> (is_ProcExit a \<and> \<not> ctx_done s) \<or> exit_before_cancel as s')"

text \<open>The steps the calling goroutine still has to take before \<open>Run\<close> has returned.\<close>

definition finish_main :: "state \<Rightarrow> action list" where
  "finish_main s =
     (case mpc s of
        AtWait \<Rightarrow> [MainWait, MainClose, MainReturn]
      | AtClose \<Rightarrow> [MainClose, MainReturn]
      | AtReturn \<Rightarrow> [MainReturn]
      | _ \<Rightarrow> [])"

text \<open>
  The caller's remaining steps, followed by the watcher taking the cleanup case if it is
  still in its \<^verbatim>\<open>select\<close>.
\<close>

definition teardown :: "state \<Rightarrow> action list" where
  "teardown s = finish_main s @ (if wpc s = AtSelect then [WatchCleanup] else [])"

text \<open>A system on which every name resolves and every start succeeds, for examples.\<close>

definition demo_os :: os where
  "demo_os = \<lparr>LookPath = (\<lambda>n. Inr (runes ''/usr/bin/'' @ n)), spawn = (\<lambda>c. Inr 4242)\<rparr>"

text \<open>A system without the executable, and one that cannot create processes.\<close>

definition no_ffmpeg_os :: os where
  "no_ffmpeg_os =
     \<lparr>LookPath = (\<lambda>n. Inl (Error ''executable file not found in $PATH'')),
      spawn = (\<lambda>c. Inr 4242)\<rparr>"

definition no_spawn_os :: os where
  "no_spawn_os =
     \<lparr>LookPath = (\<lambda>n. Inr (runes ''/usr/bin/'' @ n)),
      spawn = (\<lambda>c. Inl (Error ''fork/exec: resource temporarily unavailable''))\<rparr>"

text \<open>A pre hook that refuses the launch.\<close>

definition refusing_pre :: ErrHook where
  "refusing_pre c = Some (Some (Error ''not now''), c)"


definition exit_then_cancel :: "action list" where
  "exit_then_cancel = [ProcExit None, Cancel, WatchDone, MainWait, MainClose, MainReturn]"

subsection \<open>Invariants\<close>

text \<open>
  \<open>launching\<close> holds of the states before the watcher is spawned, \<open>racing\<close> of those
  after it, \<open>idle\<close> of those where \<open>Run\<close> returned before starting a process.
\<close>

fun is_launch_event :: "event \<Rightarrow> bool" where
  "is_launch_event select_done = False"
| "is_launch_event (exit_call c) = False"
| "is_launch_event select_cleanup = False"
| "is_launch_event (Wait_return e) = False"
| "is_launch_event close_cleanup = False"
| "is_launch_event _ = True"

definition main_ok :: "state \<Rightarrow> bool" where
  "main_ok s \<longleftrightarrow>
     mpc s \<noteq> Launching \<and> mpc s \<noteq> Panicked \<and>
     (cleanup s \<longleftrightarrow> mpc s \<noteq> AtWait \<and> mpc s \<noteq> AtClose) \<and>
     Wait_returns s = (if mpc s = AtWait then 0 else 1) \<and>
     (if mpc s = AtWait then proc s \<noteq> NotStarted else proc s = Exited (err s)) \<and>
     (\<forall>x. mpc s = Returned x \<longrightarrow> err s = x)"

definition watcher_ok :: "state \<Rightarrow> bool" where
  "watcher_ok s \<longleftrightarrow>
     wpc s \<noteq> NotSpawned \<and>
     (wpc s = AtSelect \<longleftrightarrow> select_done \<notin> set (trace s) \<and> select_cleanup \<notin> set (trace s)) \<and>
     (select_done \<in> set (trace s) \<longrightarrow> select_cleanup \<notin> set (trace s)) \<and>
     (wpc s = WPanicked \<longrightarrow> select_done \<in> set (trace s))"

definition racing :: "HookedRunner \<Rightarrow> state \<Rightarrow> bool" where
  "racing r s \<longleftrightarrow>
     recv s = r \<and> cmd s \<noteq> None \<and> main_ok s \<and> watcher_ok s \<and>
     (select_done \<in> set (trace s) \<longrightarrow> ctx_done s) \<and>
     (select_cleanup \<in> set (trace s) \<longrightarrow> cleanup s) \<and>
     (\<forall>e. Wait_return e \<in> set (trace s) \<longrightarrow> proc s = Exited e) \<and>
     exit_calls s = (if select_done \<in> set (trace s) \<and> exit r \<noteq> None then 1 else 0)"

definition launching :: "HookedRunner \<Rightarrow> state \<Rightarrow> bool" where
  "launching r s \<longleftrightarrow>
     recv s = r \<and> \<not> cleanup s \<and> wpc s = NotSpawned \<and> list_all is_launch_event (trace s)"

definition idle :: "state \<Rightarrow> bool" where
  "idle s \<longleftrightarrow> wpc s = NotSpawned \<and> proc s = NotStarted \<and> (\<exists>x. mpc s = Returned x)"

section \<open>Properties of the splitting\<close>

lemma fields_from_nonempty: "[] \<notin> set (fields_from cur s)"
  by (induction s arbitrary: cur) auto

lemma fields_from_concat: "concat (fields_from cur s) = cur @ filter (\<lambda>c. \<not> IsSpace c) s"
  by (induction s arbitrary: cur) auto

lemma fields_from_skip: "\<forall>c\<in>set w. IsSpace c \<Longrightarrow> fields_from [] (w @ s) = fields_from [] s"
  by (induction w) auto

lemma fields_from_token:
  "\<forall>c\<in>set t. \<not> IsSpace c \<Longrightarrow> fields_from cur (t @ s) = fields_from (cur @ t) s"
  by (induction t arbitrary: cur) auto

lemma fields_from_only_space:
  "\<forall>c\<in>set w. IsSpace c \<Longrightarrow> fields_from cur w = (if cur = [] then [] else [cur])"
  by (induction w arbitrary: cur) auto

lemma fields_from_trailing:
  "\<forall>c\<in>set w. IsSpace c \<Longrightarrow> fields_from cur (s @ w) = fields_from cur s"
  by (induction s arbitrary: cur) (auto simp: fields_from_only_space)

lemma fields_from_empty_iff: "fields_from cur s = [] \<longleftrightarrow> cur = [] \<and> (\<forall>c\<in>set s. IsSpace c)"
  by (induction s arbitrary: cur) auto

lemma fields_from_chars:
  "t \<in> set (fields_from cur s) \<Longrightarrow> c \<in> set t \<Longrightarrow> c \<in> set cur \<or> (c \<in> set s \<and> \<not> IsSpace c)"
proof (induction s arbitrary: cur)
  case Nil
  then show ?case by (simp split: if_splits)
next
  case (Cons a s)
  show ?case
  proof (cases "IsSpace a")
    case True
    with Cons.prems have "t = cur \<or> t \<in> set (fields_from [] s)"
      by (auto split: if_splits)
    then show ?thesis
    proof
      assume "t = cur"
      with Cons.prems show ?thesis by simp
    next
      assume "t \<in> set (fields_from [] s)"
      from Cons.IH [OF this Cons.prems(2)] show ?thesis by simp
    qed
  next
    case False
    with Cons.prems have "t \<in> set (fields_from (cur @ [a]) s)" by simp
    from Cons.IH [OF this Cons.prems(2)] False show ?thesis by auto
  qed
qed

lemma fields_from_nospace:
  "t \<in> set (fields_from [] s) \<Longrightarrow> c \<in> set t \<Longrightarrow> \<not> IsSpace c"
  using fields_from_chars [of t "[]" s c] by simp

section \<open>Properties of the steps\<close>

lemma watch_done_cases:
  assumes "watch_done s = Some s'"
  obtains
    (nil) c where "cmd s = Some c" "exit (recv s) = None"
      "s' = (emit select_done s)\<lparr>wpc := Finished\<rparr>"
  | (panic) c h where "cmd s = Some c" "exit (recv s) = Some h" "h c = None"
      "s' = (emit (exit_call c) (emit select_done s))\<lparr>wpc := WPanicked\<rparr>"
  | (hook) c h c' where "cmd s = Some c" "exit (recv s) = Some h" "h c = Some c'"
      "s' = (emit (exit_call c) (emit select_done s))\<lparr>cmd := Some c', wpc := Finished\<rparr>"
  using assms unfolding watch_done_def by (auto split: option.splits)

lemma step_cases:
  assumes "step a s = Some s'"
  obtains
    (Cancel) "a = Cancel" "\<not> ctx_done s" "s' = s\<lparr>ctx_done := True\<rparr>"
  | (ProcExit) e where "a = ProcExit e" "proc s = Alive" "s' = s\<lparr>proc := Exited e\<rparr>"
  | (WatchDone) "a = WatchDone" "wpc s = AtSelect" "ctx_done s" "watch_done s = Some s'"
  | (WatchCleanup) "a = WatchCleanup" "wpc s = AtSelect" "cleanup s"
      "s' = (emit select_cleanup s)\<lparr>wpc := Finished\<rparr>"
  | (MainWait) e where "a = MainWait" "mpc s = AtWait" "wpc s \<noteq> WPanicked" "proc s = Exited e"
      "s' = (emit (Wait_return e) s)\<lparr>err := e, mpc := AtClose\<rparr>"
  | (MainClose) "a = MainClose" "mpc s = AtClose" "wpc s \<noteq> WPanicked"
      "s' = (emit close_cleanup s)\<lparr>cleanup := True, mpc := AtReturn\<rparr>"
  | (MainReturn) "a = MainReturn" "mpc s = AtReturn" "wpc s \<noteq> WPanicked"
      "s' = s\<lparr>mpc := Returned (err s)\<rparr>"
proof (cases a)
  case Cancel
  with assms that(1) show ?thesis by (simp split: if_splits)
next
  case (ProcExit e)
  with assms that(2) show ?thesis by (simp split: if_splits)
next
  case WatchDone
  with assms that(3) show ?thesis by (simp split: if_splits)
next
  case WatchCleanup
  with assms that(4) show ?thesis by (simp split: if_splits)
next
  case MainWait
  with assms that(5) show ?thesis by (simp split: if_splits proc_status.splits)
next
  case MainClose
  with assms that(6) show ?thesis by (simp split: if_splits)
next
  case MainReturn
  with assms that(7) show ?thesis by (simp split: if_splits)
qed

lemma step_recv: "step a s = Some s' \<Longrightarrow> recv s' = recv s"
  by (cases rule: step_cases, assumption)
     (auto simp: emit_def elim!: watch_done_cases)

lemma exec_recv: "exec sch s = Some s' \<Longrightarrow> recv s' = recv s"
  by (induction sch arbitrary: s) (auto split: option.splits dest: step_recv)

lemma step_trace: "step a s = Some s' \<Longrightarrow> \<exists>evs. trace s' = trace s @ evs"
  by (cases rule: step_cases, assumption)
     (auto simp: emit_def elim!: watch_done_cases)

lemma exec_trace: "exec sch s = Some s' \<Longrightarrow> \<exists>evs. trace s' = trace s @ evs"
proof (induction sch arbitrary: s)
  case Nil
  then show ?case by simp
next
  case (Cons a sch)
  then obtain s1 where s1: "step a s = Some s1" "exec sch s1 = Some s'"
    by (auto split: option.splits)
  from step_trace [OF s1(1)] Cons.IH [OF s1(2)] show ?case by auto
qed




lemma step_idle:
  assumes "idle s" "step a s = Some s'"
  shows "idle s' \<and> trace s' = trace s \<and> mpc s' = mpc s \<and> cmd s' = cmd s"
  using assms(2)
  by (cases rule: step_cases) (use assms(1) in \<open>auto simp: idle_def\<close>)

lemma exec_idle:
  "idle s \<Longrightarrow> exec sch s = Some s' \<Longrightarrow>
     idle s' \<and> trace s' = trace s \<and> mpc s' = mpc s \<and> cmd s' = cmd s"
proof (induction sch arbitrary: s)
  case Nil
  then show ?case by simp
next
  case (Cons a sch)
  then obtain s1 where s1: "step a s = Some s1" "exec sch s1 = Some s'"
    by (auto split: option.splits)
  from step_idle [OF Cons.prems(1) s1(1)] Cons.IH [OF _ s1(2)] show ?case by simp
qed

section \<open>The invariant of the race\<close>

lemma launch_events:
  "list_all is_launch_event tr \<Longrightarrow>
     filter is_exit_call tr = [] \<and> filter is_Wait_return tr = [] \<and>
     select_done \<notin> set tr \<and> select_cleanup \<notin> set tr \<and> Wait_return e \<notin> set tr"
  by (induction tr) (auto elim: is_launch_event.elims)

lemma Run_watch_racing:
  assumes "launching r s" "cmd s \<noteq> None" "proc s = Alive"
  shows "racing r (Run_watch s)"
  using assms launch_events [of "trace s"]
  by (simp add: racing_def launching_def Run_watch_def emit_def main_ok_def watcher_ok_def
      exit_calls_def Wait_returns_def)

lemma Run_post_racing:
  assumes "launching r s" "cmd s \<noteq> None" "proc s = Alive" "mpc (Run_post c s) = AtWait"
  shows "racing r (Run_post c s)"
proof (cases "post (recv s)")
  case None
  with assms show ?thesis by (simp add: Run_post_def Run_watch_racing)
next
  case (Some h)
  show ?thesis
  proof (cases "h c")
    case None
    with Some assms(4) show ?thesis by (simp add: Run_post_def emit_def)
  next
    case (Some c')
    let ?s = "(emit (post_call c) s)\<lparr>cmd := Some c'\<rparr>"
    have "launching r ?s" "cmd ?s \<noteq> None" "proc ?s = Alive"
      using assms by (simp_all add: launching_def emit_def)
    then have "racing r (Run_watch ?s)" by (rule Run_watch_racing)
    with Some \<open>post (recv s) = Some h\<close> show ?thesis by (simp add: Run_post_def)
  qed
qed

lemma Run_start_racing:
  assumes "launching r s" "mpc (Run_start sys c s) = AtWait"
  shows "racing r (Run_start sys c s)"
proof (cases "cmd_Start sys c")
  case (Pair e c')
  show ?thesis
  proof (cases e)
    case None
    let ?s = "(emit (Start_call c) s)\<lparr>cmd := Some c', proc := Alive\<rparr>"
    have eq: "Run_start sys c s = Run_post c' ?s"
      using Pair None by (simp add: Run_start_def)
    have "launching r ?s" "cmd ?s \<noteq> None" "proc ?s = Alive"
      using assms(1) by (simp_all add: launching_def emit_def)
    then show ?thesis using assms(2) unfolding eq by (rule Run_post_racing)
  next
    case (Some x)
    with Pair assms(2) show ?thesis by (simp add: Run_start_def return_err_def emit_def)
  qed
qed

lemma Run_pre_racing:
  assumes "launching r s" "mpc (Run_pre sys c s) = AtWait"
  shows "racing r (Run_pre sys c s)"
proof (cases "pre (recv s)")
  case None
  with assms show ?thesis by (simp add: Run_pre_def Run_start_racing)
next
  case (Some h)
  show ?thesis
  proof (cases "h c")
    case None
    with Some assms(2) show ?thesis by (simp add: Run_pre_def emit_def)
  next
    case outcome: (Some ec)
    obtain e c' where ec: "ec = (e, c')" by (cases ec)
    show ?thesis
    proof (cases e)
      case None
      let ?s = "(emit (pre_call c) s)\<lparr>cmd := Some c'\<rparr>"
      have eq: "Run_pre sys c s = Run_start sys c' ?s"
        using Some outcome ec None by (simp add: Run_pre_def)
      have "launching r ?s" using assms(1) by (simp add: launching_def emit_def)
      then show ?thesis using assms(2) unfolding eq by (rule Run_start_racing)
    next
      case (Some x)
      with \<open>pre (recv s) = Some h\<close> outcome ec assms(2) show ?thesis
        by (simp add: Run_pre_def return_err_def emit_def)
    qed
  qed
qed

lemma Run_launch_racing:
  assumes "mpc (Run_launch sys r fired arg) = AtWait"
  shows "racing r (Run_launch sys r fired arg)"
proof (cases "LookPath sys (path r)")
  case (Inl e)
  with assms show ?thesis
    by (simp add: Run_launch_def Run_entry_def return_err_def emit_def)
next
  case (Inr p)
  let ?c = "Command p (Fields arg)"
  let ?s = "(emit (Command_call p (Fields arg)) (emit (LookPath_call (path r)) (Run_entry r fired)))
              \<lparr>cmd := Some ?c\<rparr>"
  have eq: "Run_launch sys r fired arg = Run_pre sys ?c ?s"
    using Inr by (simp add: Run_launch_def Let_def)
  have "launching r ?s" by (simp add: launching_def emit_def Run_entry_def)
  then show ?thesis using assms unfolding eq by (rule Run_pre_racing)
qed

lemmas racing_defs = racing_def main_ok_def watcher_ok_def exit_calls_def Wait_returns_def emit_def

lemma step_racing:
  assumes inv: "racing r s" and st: "step a s = Some s'"
  shows "racing r s'"
  using st
proof (cases rule: step_cases)
  case Cancel
  with inv show ?thesis by (auto simp: racing_defs)
next
  case (ProcExit e)
  with inv show ?thesis by (auto simp: racing_defs)
next
  case WatchDone
  from WatchDone(4) show ?thesis
  proof (cases rule: watch_done_cases)
    case (nil c)
    with inv WatchDone(2,3) show ?thesis by (auto simp: racing_defs)
  next
    case (panic c h)
    with inv WatchDone(2,3) show ?thesis by (auto simp: racing_defs)
  next
    case (hook c h c')
    with inv WatchDone(2,3) show ?thesis by (auto simp: racing_defs)
  qed
next
  case WatchCleanup
  with inv show ?thesis by (auto simp: racing_defs)
next
  case (MainWait e)
  with inv show ?thesis by (auto simp: racing_defs)
next
  case MainClose
  with inv show ?thesis by (auto simp: racing_defs)
next
  case MainReturn
  with inv show ?thesis by (auto simp: racing_defs)
qed

lemma exec_racing: "racing r s \<Longrightarrow> exec sch s = Some s' \<Longrightarrow> racing r s'"
proof (induction sch arbitrary: s)
  case Nil
  then show ?case by simp
next
  case (Cons a sch)
  then obtain s1 where "step a s = Some s1" "exec sch s1 = Some s'"
    by (auto split: option.splits)
  with Cons.IH [of s1] Cons.prems(1) show ?case by (blast intro: step_racing)
qed

lemma finish_main_returns:
  assumes "racing r s" "proc s = Exited e" "wpc s \<noteq> WPanicked"
  shows "\<exists>s'. exec (finish_main s) s = Some s' \<and> mpc s' = Returned e"
proof (cases "mpc s")
  case AtWait
  with assms show ?thesis by (simp add: finish_main_def emit_def)
next
  case AtClose
  with assms show ?thesis by (simp add: finish_main_def emit_def racing_def main_ok_def)
next
  case AtReturn
  with assms show ?thesis by (simp add: finish_main_def emit_def racing_def main_ok_def)
next
  case (Returned x)
  with assms show ?thesis by (simp add: finish_main_def emit_def racing_def main_ok_def)
next
  case Launching
  with assms(1) show ?thesis by (simp add: racing_def main_ok_def)
next
  case Panicked
  with assms(1) show ?thesis by (simp add: racing_def main_ok_def)
qed

section \<open>What the launch records\<close>

lemmas Run_launch_defs =
  Run_launch_def Run_pre_def Run_start_def Run_post_def Run_watch_def Run_entry_def
  return_err_def emit_def

lemma Run_launch_trace:
  assumes "LookPath sys (path r) = Inr p"
  shows "\<exists>evs. trace (Run_launch sys r fired arg) =
           [LookPath_call (path r), Command_call p (Fields arg),
            (case pre r of
               None \<Rightarrow> Start_call (Command p (Fields arg))
             | Some h \<Rightarrow> pre_call (Command p (Fields arg)))] @ evs"
  using assms by (simp add: Run_launch_defs Let_def split: option.splits prod.splits)

lemma Run_trace_prefix:
  assumes "LookPath sys (path r) = Inr p" "Run sys r fired arg sch = Some st"
  shows "take 3 (trace st) =
           [LookPath_call (path r), Command_call p (Fields arg),
            (case pre r of
               None \<Rightarrow> Start_call (Command p (Fields arg))
             | Some h \<Rightarrow> pre_call (Command p (Fields arg)))]"
proof -
  from Run_launch_trace [OF assms(1)] obtain evs where
    "trace (Run_launch sys r fired arg) =
       [LookPath_call (path r), Command_call p (Fields arg),
        (case pre r of
           None \<Rightarrow> Start_call (Command p (Fields arg))
         | Some h \<Rightarrow> pre_call (Command p (Fields arg)))] @ evs"
    by blast
  moreover from assms(2) exec_trace obtain evs' where
    "trace st = trace (Run_launch sys r fired arg) @ evs'"
    unfolding Run_def by blast
  ultimately show ?thesis by simp
qed

lemmas eval_defs =
  Run_def Run_launch_defs watch_done_def demo_os_def no_ffmpeg_os_def no_spawn_os_def
  HookRunner_def default_runner_def kill_hook_def Kill_def cmd_Start_def Command_def
  CustomPath_def PreHook_def PostHook_def DoneHook_def Let_def

lemma idle_Run:
  assumes "idle (Run_launch sys r fired arg)" "Run sys r fired arg sch = Some st"
  shows "trace st = trace (Run_launch sys r fired arg)"
    and "mpc st = mpc (Run_launch sys r fired arg)"
    and "cmd st = cmd (Run_launch sys r fired arg)"
    and "proc st = NotStarted" and "wpc st = NotSpawned"
  using exec_idle [OF assms(1)] assms(2) by (simp_all add: Run_def idle_def)

section \<open>Facts about the race\<close>

lemma Run_racing:
  assumes "Run sys r fired arg sch = Some s" "mpc (Run_launch sys r fired arg) = AtWait"
  shows "racing r s"
  using exec_racing [OF Run_launch_racing [OF assms(2)]] assms(1) by (simp add: Run_def)

lemma racing_Returned: "racing r s \<Longrightarrow> mpc s = Returned x \<Longrightarrow> proc s = Exited x"
  by (auto simp: racing_def main_ok_def)


lemma racing_cleanup_taken:
  "racing r s \<Longrightarrow> select_cleanup \<in> set (trace s) \<Longrightarrow> exit_calls s = 0 \<and> cleanup s"
  by (auto simp: racing_def watcher_ok_def)

lemma racing_not_done: "racing r s \<Longrightarrow> \<not> ctx_done s \<Longrightarrow> exit_calls s = 0"
  by (auto simp: racing_def)


lemma racing_select_cleanup:
  assumes "racing r s" "wpc s = AtSelect" "cleanup s"
  shows "\<exists>s'. step WatchCleanup s = Some s' \<and> wpc s' = Finished \<and> exit_calls s' = 0"
proof -
  from assms(1,2) have "filter is_exit_call (trace s) = []"
    by (auto simp: racing_def watcher_ok_def exit_calls_def)
  with assms(2,3) show ?thesis by (simp add: emit_def exit_calls_def)
qed

lemma racing_Wait_once:
  assumes "racing r s" "mpc s = Returned x"
  shows "filter is_Wait_return (trace s) = [Wait_return x]"
proof -
  from assms have len: "length (filter is_Wait_return (trace s)) = 1"
    and ex: "\<forall>e. Wait_return e \<in> set (trace s) \<longrightarrow> proc s = Exited e"
    and px: "proc s = Exited x"
    by (auto simp: racing_def main_ok_def Wait_returns_def)
  from len obtain ev where ev: "filter is_Wait_return (trace s) = [ev]"
    by (cases "filter is_Wait_return (trace s)") auto
  then have "ev \<in> set (filter is_Wait_return (trace s))" by simp
  then have mem: "ev \<in> set (trace s)" and isw: "is_Wait_return ev" by simp_all
  from isw obtain e where "ev = Wait_return e" by (cases ev) simp_all
  with mem ex px ev show ?thesis by auto
qed

lemma step_Exited:
  assumes "step a s = Some s'" "proc s = Exited e"
  shows "proc s' = Exited e"
  using assms(1)
proof (cases rule: step_cases)
  case WatchDone
  from WatchDone(4) show ?thesis
    by (cases rule: watch_done_cases) (use assms(2) in \<open>simp_all add: emit_def\<close>)
qed (use assms(2) in \<open>simp_all add: emit_def\<close>)

lemma exec_Exited: "exec sch s = Some s' \<Longrightarrow> proc s = Exited e \<Longrightarrow> proc s' = Exited e"
  by (induction sch arbitrary: s) (auto split: option.splits dest: step_Exited)

lemma exit_before_cancel_Exited:
  "exit_before_cancel sch s \<Longrightarrow> exec sch s = Some s' \<Longrightarrow> \<exists>e. proc s' = Exited e"
proof (induction sch arbitrary: s)
  case Nil
  then show ?case by simp
next
  case (Cons a sch)
  then obtain s1 where s1: "step a s = Some s1" "exec sch s1 = Some s'"
    by (auto split: option.splits)
  show ?case
  proof (cases "is_ProcExit a")
    case True
    then obtain e where "a = ProcExit e" by (cases a) simp_all
    with s1(1) have "proc s1 = Exited e" by (auto split: if_splits)
    with s1(2) show ?thesis by (blast dest: exec_Exited)
  next
    case False
    with Cons.prems(1) s1(1) have "exit_before_cancel sch s1" by simp
    then show ?thesis using s1(2) by (rule Cons.IH)
  qed
qed

lemma exec_append:
  "exec (xs @ ys) s = (case exec xs s of None \<Rightarrow> None | Some s' \<Rightarrow> exec ys s')"
  by (induction xs arbitrary: s) (simp_all split: option.splits)

lemma finish_main_closes:
  assumes "racing r s" "proc s = Exited e" "wpc s \<noteq> WPanicked"
  shows "\<exists>s'. exec (finish_main s) s = Some s' \<and> mpc s' = Returned e \<and> cleanup s' \<and>
           wpc s' = wpc s \<and> exit_calls s' = exit_calls s \<and> ctx_done s' = ctx_done s \<and>
           proc s' = Exited e"
proof (cases "mpc s")
  case AtWait
  with assms show ?thesis by (simp add: finish_main_def emit_def exit_calls_def)
next
  case AtClose
  with assms show ?thesis
    by (simp add: finish_main_def emit_def racing_def main_ok_def exit_calls_def)
next
  case AtReturn
  with assms show ?thesis
    by (simp add: finish_main_def emit_def racing_def main_ok_def exit_calls_def)
next
  case (Returned x)
  with assms show ?thesis
    by (simp add: finish_main_def emit_def racing_def main_ok_def exit_calls_def)
next
  case Launching
  with assms(1) show ?thesis by (simp add: racing_def main_ok_def)
next
  case Panicked
  with assms(1) show ?thesis by (simp add: racing_def main_ok_def)
qed

lemma racing_watcher_spawned: "racing r s \<Longrightarrow> wpc s \<noteq> NotSpawned"
  by (simp add: racing_def watcher_ok_def)

lemma racing_Finished_quiet:
  assumes "racing r s" "wpc s = Finished" "\<not> ctx_done s"
  shows "select_cleanup \<in> set (trace s)"
proof -
  from assms(1,3) have "select_done \<notin> set (trace s)" by (auto simp: racing_def)
  moreover from assms(1,2) have
    "select_done \<in> set (trace s) \<or> select_cleanup \<in> set (trace s)"
    by (auto simp: racing_def watcher_ok_def)
  ultimately show ?thesis by blast
qed

lemma racing_not_Panicked: "racing r s \<Longrightarrow> \<not> ctx_done s \<Longrightarrow> wpc s \<noteq> WPanicked"
  by (auto simp: racing_def watcher_ok_def)

lemma teardown_completes:
  assumes inv: "racing r s" and ex: "proc s = Exited e" and np: "wpc s \<noteq> WPanicked"
  shows "\<exists>s'. exec (teardown s) s = Some s' \<and> mpc s' = Returned e \<and> cleanup s' \<and>
           wpc s' = Finished \<and> exit_calls s' = exit_calls s \<and> ctx_done s' = ctx_done s \<and>
           (\<not> ctx_done s \<longrightarrow> select_cleanup \<in> set (trace s'))"
proof -
  from finish_main_closes [OF inv ex np] obtain s1 where
    s1: "exec (finish_main s) s = Some s1" "mpc s1 = Returned e" "cleanup s1"
      "wpc s1 = wpc s" "exit_calls s1 = exit_calls s" "ctx_done s1 = ctx_done s"
    by blast
  from inv have "wpc s \<noteq> NotSpawned" by (rule racing_watcher_spawned)
  with np consider (sel) "wpc s = AtSelect" | (fin) "wpc s = Finished"
    by (cases "wpc s") simp_all
  then show ?thesis
  proof cases
    case sel
    let ?s2 = "(emit select_cleanup s1)\<lparr>wpc := Finished\<rparr>"
    from sel s1(3,4) have st: "step WatchCleanup s1 = Some ?s2" by simp
    from sel s1(1) st have "exec (teardown s) s = Some ?s2"
      by (simp add: teardown_def exec_append)
    moreover have "mpc ?s2 = Returned e" "cleanup ?s2" "wpc ?s2 = Finished"
      "exit_calls ?s2 = exit_calls s" "ctx_done ?s2 = ctx_done s"
      "select_cleanup \<in> set (trace ?s2)"
      using s1(2,3,5,6) by (simp_all add: emit_def exit_calls_def)
    ultimately show ?thesis by blast
  next
    case fin
    from fin s1(1) have run: "exec (teardown s) s = Some s1" by (simp add: teardown_def)
    have "\<not> ctx_done s \<longrightarrow> select_cleanup \<in> set (trace s1)"
    proof
      assume "\<not> ctx_done s"
      with inv fin have "select_cleanup \<in> set (trace s)" by (rule racing_Finished_quiet)
      moreover from exec_trace [OF s1(1)] obtain evs where "trace s1 = trace s @ evs" ..
      ultimately show "select_cleanup \<in> set (trace s1)" by simp
    qed
    with run s1 fin show ?thesis by auto
  qed
qed

section \<open>The claims\<close>




text \<open>
  Claim C2, as amended. In every run that reaches the wait and in which the process
  terminates before the context is cancelled:
  \<^item> the process has terminated and the watcher has been spawned;
  \<^item> the caller's remaining steps can always be taken (unless the exit hook has panicked):
    they return the value the wait reports, close \<^verbatim>\<open>cleanup\<close> on the way, and call no
    hook;
  \<^item> so the run can always be completed by \<open>teardown\<close>, in which a watcher still in its
    \<^verbatim>\<open>select\<close> is torn down by the cleanup signal, without a call of the exit hook;
  \<^item> as long as the context has not been cancelled the exit hook has not been called and
    the watcher cannot take the done case, and completing the run by \<open>teardown\<close> then
    ends with the watcher torn down by the cleanup signal and the hook never called;
  \<^item> a watcher that took the cleanup case has not called the hook, and once \<^verbatim>\<open>cleanup\<close>
    is closed a watcher still in its \<^verbatim>\<open>select\<close> can take that case.

  As stated (the hook is never called in such a run) the claim fails: the counterexample
  after the witness is a run of the default runner in which the process terminates, the
  context is cancelled before the watcher has been torn down, the watcher takes the done
  case and the hook is called.
\<close>

theorem Run_exit_before_cancel:
  assumes "Run sys r fired arg sch = Some s"
    and "mpc (Run_launch sys r fired arg) = AtWait"
    and "exit_before_cancel sch (Run_launch sys r fired arg)"
  shows "(\<not> ctx_done s \<longrightarrow> exit_calls s = 0 \<and> step WatchDone s = None)
    \<and> (select_cleanup \<in> set (trace s) \<longrightarrow> exit_calls s = 0 \<and> cleanup s)
    \<and> (wpc s = AtSelect \<and> cleanup s \<longrightarrow>
          (\<exists>s'. step WatchCleanup s = Some s' \<and> wpc s' = Finished \<and> exit_calls s' = 0))
    \<and> (\<exists>e. proc s = Exited e)
    \<and> wpc s \<noteq> NotSpawned
    \<and> (wpc s \<noteq> WPanicked \<longrightarrow>
          (\<exists>e s'. proc s = Exited e \<and> exec (finish_main s) s = Some s' \<and>
                  mpc s' = Returned e \<and> cleanup s' \<and>
                  wpc s' = wpc s \<and> exit_calls s' = exit_calls s))
    \<and> (wpc s \<noteq> WPanicked \<longrightarrow>
          (\<exists>e s'. proc s = Exited e \<and> exec (teardown s) s = Some s' \<and>
                  mpc s' = Returned e \<and> cleanup s' \<and>
                  wpc s' = Finished \<and> exit_calls s' = exit_calls s))
    \<and> (\<not> ctx_done s \<longrightarrow>
          (\<exists>e s'. proc s = Exited e \<and> exec (teardown s) s = Some s' \<and>
                  mpc s' = Returned e \<and> wpc s' = Finished \<and>
                  select_cleanup \<in> set (trace s') \<and> exit_calls s' = 0 \<and> \<not> ctx_done s'))"
proof -
  have inv: "racing r s" using assms(1,2) by (rule Run_racing)
  from exit_before_cancel_Exited [OF assms(3)] assms(1) obtain e where
    ex: "proc s = Exited e" by (auto simp: Run_def)
  have a: "\<not> ctx_done s \<longrightarrow> exit_calls s = 0 \<and> step WatchDone s = None"
    using racing_not_done [OF inv] by simp
  have b: "select_cleanup \<in> set (trace s) \<longrightarrow> exit_calls s = 0 \<and> cleanup s"
    using racing_cleanup_taken [OF inv] by blast
  have c: "wpc s = AtSelect \<and> cleanup s \<longrightarrow>
          (\<exists>s'. step WatchCleanup s = Some s' \<and> wpc s' = Finished \<and> exit_calls s' = 0)"
    using racing_select_cleanup [OF inv] by blast
  have d: "\<exists>e. proc s = Exited e" using ex by blast
  have f: "wpc s \<noteq> NotSpawned" using inv by (rule racing_watcher_spawned)
  have g: "wpc s \<noteq> WPanicked \<longrightarrow>
          (\<exists>e s'. proc s = Exited e \<and> exec (finish_main s) s = Some s' \<and>
                  mpc s' = Returned e \<and> cleanup s' \<and>
                  wpc s' = wpc s \<and> exit_calls s' = exit_calls s)"
    using finish_main_closes [OF inv ex] ex by blast
  have h: "wpc s \<noteq> WPanicked \<longrightarrow>
          (\<exists>e s'. proc s = Exited e \<and> exec (teardown s) s = Some s' \<and>
                  mpc s' = Returned e \<and> cleanup s' \<and>
                  wpc s' = Finished \<and> exit_calls s' = exit_calls s)"
    using teardown_completes [OF inv ex] ex by blast
  have i: "\<not> ctx_done s \<longrightarrow>
          (\<exists>e s'. proc s = Exited e \<and> exec (teardown s) s = Some s' \<and>
                  mpc s' = Returned e \<and> wpc s' = Finished \<and>
                  select_cleanup \<in> set (trace s') \<and> exit_calls s' = 0 \<and> \<not> ctx_done s')"
  proof
    assume nd: "\<not> ctx_done s"
    with inv have "wpc s \<noteq> WPanicked" by (rule racing_not_Panicked)
    from teardown_completes [OF inv ex this] nd obtain s' where
      s': "exec (teardown s) s = Some s'" "mpc s' = Returned e" "wpc s' = Finished"
        "exit_calls s' = exit_calls s" "ctx_done s' = ctx_done s"
        "select_cleanup \<in> set (trace s')"
      by blast
    moreover from racing_not_done [OF inv nd] have "exit_calls s = 0" .
    ultimately show "\<exists>e s'. proc s = Exited e \<and> exec (teardown s) s = Some s' \<and>
                  mpc s' = Returned e \<and> wpc s' = Finished \<and>
                  select_cleanup \<in> set (trace s') \<and> exit_calls s' = 0 \<and> \<not> ctx_done s'"
      using ex nd by auto
  qed
  from a b c d f g h i show ?thesis by blast
qed

theorem Run_exit_before_cancel_witness:
  "(\<exists>s. Run demo_os (HookRunner []) False (runes ''-i test.mp4'')
            [ProcExit None, MainWait, MainClose, WatchCleanup, MainReturn] = Some s
        \<and> exit_calls s = 0 \<and> step WatchDone s = None \<and> cleanup s \<and> proc s = Exited None)
   \<and> (\<exists>s s'. Run demo_os (HookRunner []) False (runes ''-i test.mp4'')
            [ProcExit None, MainWait, MainClose] = Some s
        \<and> step WatchCleanup s = Some s' \<and> wpc s' = Finished \<and> exit_calls s' = 0)
   \<and> (\<exists>s s'. Run demo_os (HookRunner []) False (runes ''-i test.mp4'')
            [ProcExit (Some (Error ''exit status 1''))] = Some s
        \<and> exec (teardown s) s = Some s'
        \<and> mpc s' = Returned (Some (Error ''exit status 1'')) \<and> cleanup s'
        \<and> wpc s' = Finished \<and> select_cleanup \<in> set (trace s') \<and> exit_calls s' = 0)
   \<and> (\<exists>s s'. Run demo_os (HookRunner []) False (runes ''-i test.mp4'')
            [ProcExit None, Cancel, WatchDone] = Some s
        \<and> exec (finish_main s) s = Some s' \<and> mpc s' = Returned None \<and> cleanup s'
        \<and> exit_calls s' = exit_calls s)"
proof -
  let ?arg = "runes ''-i test.mp4''"
  let ?r = "HookRunner []"
  let ?sch = "[ProcExit None, MainWait, MainClose, WatchCleanup, MainReturn]"
  let ?sch' = "[ProcExit None, MainWait, MainClose]"
  let ?e = "Some (Error ''exit status 1'')"
  have launched: "mpc (Run_launch demo_os ?r False ?arg) = AtWait"
    by (simp add: eval_defs)
  have c1: "exit_before_cancel ?sch (Run_launch demo_os ?r False ?arg)"
    by (simp add: eval_defs)
  have "\<exists>s. Run demo_os ?r False ?arg ?sch = Some s \<and> \<not> ctx_done s
      \<and> select_cleanup \<in> set (trace s) \<and> proc s = Exited None"
    by (simp add: eval_defs)
  then obtain s1 where s1: "Run demo_os ?r False ?arg ?sch = Some s1" "\<not> ctx_done s1"
    "select_cleanup \<in> set (trace s1)" "proc s1 = Exited None" by blast
  from Run_exit_before_cancel [OF s1(1) launched c1] s1(2,3)
  have a: "exit_calls s1 = 0 \<and> step WatchDone s1 = None \<and> cleanup s1" by blast
  have c2: "exit_before_cancel ?sch' (Run_launch demo_os ?r False ?arg)"
    by (simp add: eval_defs)
  have "\<exists>s. Run demo_os ?r False ?arg ?sch' = Some s \<and> wpc s = AtSelect \<and> cleanup s"
    by (simp add: eval_defs)
  then obtain s2 where s2: "Run demo_os ?r False ?arg ?sch' = Some s2"
    "wpc s2 = AtSelect \<and> cleanup s2" by blast
  from Run_exit_before_cancel [OF s2(1) launched c2] s2(2)
  have b: "\<exists>s'. step WatchCleanup s2 = Some s' \<and> wpc s' = Finished \<and> exit_calls s' = 0"
    by blast
  have c3: "exit_before_cancel [ProcExit ?e] (Run_launch demo_os ?r False ?arg)"
    by (simp add: eval_defs)
  have "\<exists>s. Run demo_os ?r False ?arg [ProcExit ?e] = Some s \<and> \<not> ctx_done s
      \<and> wpc s \<noteq> WPanicked \<and> proc s = Exited ?e"
    by (simp add: eval_defs)
  then obtain s3 where s3: "Run demo_os ?r False ?arg [ProcExit ?e] = Some s3"
    "\<not> ctx_done s3" "wpc s3 \<noteq> WPanicked" "proc s3 = Exited ?e" by blast
  from Run_exit_before_cancel [OF s3(1) launched c3] s3(2,3)
  obtain e3 t3 u3 where t3: "proc s3 = Exited e3" "exec (teardown s3) s3 = Some t3"
      "mpc t3 = Returned e3" "wpc t3 = Finished" "select_cleanup \<in> set (trace t3)"
      "exit_calls t3 = 0"
    and u3: "exec (teardown s3) s3 = Some u3" "cleanup u3"
    by blast
  from t3(1) s3(4) have "e3 = ?e" by simp
  with t3 u3 have c: "\<exists>s'. exec (teardown s3) s3 = Some s'
        \<and> mpc s' = Returned ?e \<and> cleanup s'
        \<and> wpc s' = Finished \<and> select_cleanup \<in> set (trace s') \<and> exit_calls s' = 0"
    by auto
  let ?sch4 = "[ProcExit None, Cancel, WatchDone]"
  have c4: "exit_before_cancel ?sch4 (Run_launch demo_os ?r False ?arg)"
    by (simp add: eval_defs)
  have "\<exists>s. Run demo_os ?r False ?arg ?sch4 = Some s
      \<and> wpc s \<noteq> WPanicked \<and> proc s = Exited None"
    by (simp add: eval_defs)
  then obtain s4 where s4: "Run demo_os ?r False ?arg ?sch4 = Some s4"
    "wpc s4 \<noteq> WPanicked" "proc s4 = Exited None" by blast
  from Run_exit_before_cancel [OF s4(1) launched c4] s4(2)
  obtain e4 t4 where t4: "proc s4 = Exited e4" "exec (finish_main s4) s4 = Some t4"
      "mpc t4 = Returned e4" "cleanup t4" "exit_calls t4 = exit_calls s4"
    by blast
  from t4(1) s4(3) have "e4 = None" by simp
  with t4 have d: "\<exists>s'. exec (finish_main s4) s4 = Some s' \<and> mpc s' = Returned None
      \<and> cleanup s' \<and> exit_calls s' = exit_calls s4" by blast
  from s1 a s2(1) b s3(1) c s4(1) d show ?thesis by blast
qed

theorem Run_exit_before_cancel_counterexample:
  "exit_before_cancel exit_then_cancel (Run_launch demo_os (HookRunner []) False (runes ''-i test.mp4''))
   \<and> map_option exit_calls
        (Run demo_os (HookRunner []) False (runes ''-i test.mp4'') exit_then_cancel) = Some 1
   \<and> map_option mpc
        (Run demo_os (HookRunner []) False (runes ''-i test.mp4'') exit_then_cancel)
       = Some (Returned None)"
  by (simp add: eval_defs exit_then_cancel_def exit_calls_def)

text \<open>
  Claim C3. When the pre hook returns an error, \<open>Run\<close> returns exactly that error, the
  process is never started, and neither the post hook nor the exit hook is ever called:
  \<open>Run\<close> has looked the path up, built the command and called the pre hook, and nothing
  else happens, whatever comes afterwards.
\<close>

theorem Run_pre_hook_error:
  assumes "LookPath sys (path r) = Inr p"
    and "pre r = Some h"
    and "h (Command p (Fields arg)) = Some (Some e, c')"
  shows "mpc (Run_launch sys r fired arg) = Returned (Some e)
    \<and> (\<forall>sch st. Run sys r fired arg sch = Some st \<longrightarrow>
          mpc st = Returned (Some e) \<and>
          trace st = [LookPath_call (path r), Command_call p (Fields arg),
                      pre_call (Command p (Fields arg))] \<and>
          proc st = NotStarted \<and> wpc st = NotSpawned)"
proof -
  let ?s = "Run_launch sys r fired arg"
  have facts: "mpc ?s = Returned (Some e)"
    "trace ?s = [LookPath_call (path r), Command_call p (Fields arg),
                 pre_call (Command p (Fields arg))]"
    "idle ?s"
    using assms by (simp_all add: Run_launch_defs Let_def idle_def)
  with idle_Run [of sys r fired arg] show ?thesis by simp
qed

theorem Run_pre_hook_error_witness:
  "mpc (Run_launch demo_os (HookRunner [PreHook (Some refusing_pre)]) False (runes ''-i test.mp4''))
     = Returned (Some (Error ''not now''))
   \<and> (\<exists>st. Run demo_os (HookRunner [PreHook (Some refusing_pre)]) False (runes ''-i test.mp4'')
              [Cancel] = Some st
        \<and> mpc st = Returned (Some (Error ''not now''))
        \<and> trace st =
            [LookPath_call (runes ''ffmpeg''),
             Command_call (runes ''/usr/bin/ffmpeg'') [runes ''-i'', runes ''test.mp4''],
             pre_call (Command (runes ''/usr/bin/ffmpeg'') [runes ''-i'', runes ''test.mp4''])]
        \<and> proc st = NotStarted \<and> wpc st = NotSpawned)"
proof -
  let ?r = "HookRunner [PreHook (Some refusing_pre)]"
  let ?arg = "runes ''-i test.mp4''"
  let ?p = "runes ''/usr/bin/ffmpeg''"
  have r: "path ?r = runes ''ffmpeg''" "pre ?r = Some refusing_pre"
    by (simp_all add: eval_defs)
  have lp: "LookPath demo_os (path ?r) = Inr ?p"
    by (simp add: eval_defs runes_def)
  have hk: "refusing_pre (Command ?p (Fields ?arg))
      = Some (Some (Error ''not now''), Command ?p (Fields ?arg))"
    by (simp add: refusing_pre_def)
  have fl: "Fields ?arg = [runes ''-i'', runes ''test.mp4'']"
    by (simp add: Fields_def runes_def IsSpace_def)
  have "\<exists>st. Run demo_os ?r False ?arg [Cancel] = Some st"
    by (simp add: eval_defs refusing_pre_def)
  then obtain st where st: "Run demo_os ?r False ?arg [Cancel] = Some st" ..
  from Run_pre_hook_error [OF lp r(2) hk, of False] st r(1) fl show ?thesis by auto
qed

text \<open>
  Claim C4. When the executable name cannot be resolved, \<open>Run\<close> returns the resolution
  error before any process is spawned: \<open>LookPath\<close> is the only call it ever makes, so no
  command is built, no hook is called, no process is created and no watcher is spawned,
  whatever happens afterwards.
\<close>

theorem Run_LookPath_error:
  assumes "LookPath sys (path r) = Inl e"
  shows "mpc (Run_launch sys r fired arg) = Returned (Some e)
    \<and> (\<forall>sch st. Run sys r fired arg sch = Some st \<longrightarrow>
          mpc st = Returned (Some e) \<and> trace st = [LookPath_call (path r)] \<and>
          cmd st = None \<and> proc st = NotStarted \<and> wpc st = NotSpawned)"
proof -
  let ?s = "Run_launch sys r fired arg"
  from assms have s: "?s = return_err e (emit (LookPath_call (path r)) (Run_entry r fired))"
    by (simp add: Run_launch_def)
  have facts: "mpc ?s = Returned (Some e)" "trace ?s = [LookPath_call (path r)]"
    "cmd ?s = None" "idle ?s"
    unfolding s by (simp_all add: return_err_def emit_def Run_entry_def idle_def)
  with idle_Run [of sys r fired arg] show ?thesis by simp
qed

theorem Run_LookPath_error_witness:
  "mpc (Run_launch no_ffmpeg_os (HookRunner []) False (runes ''-i test.mp4''))
     = Returned (Some (Error ''executable file not found in $PATH''))
   \<and> (\<exists>st. Run no_ffmpeg_os (HookRunner []) False (runes ''-i test.mp4'') [Cancel] = Some st
        \<and> mpc st = Returned (Some (Error ''executable file not found in $PATH''))
        \<and> trace st = [LookPath_call (runes ''ffmpeg'')]
        \<and> cmd st = None \<and> proc st = NotStarted \<and> wpc st = NotSpawned)"
proof -
  let ?e = "Error ''executable file not found in $PATH''"
  have lp: "LookPath no_ffmpeg_os (path (HookRunner [])) = Inl ?e"
    by (simp add: no_ffmpeg_os_def)
  have "\<exists>st. Run no_ffmpeg_os (HookRunner []) False (runes ''-i test.mp4'') [Cancel] = Some st"
    by (simp add: eval_defs)
  then obtain st where
    st: "Run no_ffmpeg_os (HookRunner []) False (runes ''-i test.mp4'') [Cancel] = Some st" ..
  have pth: "path (HookRunner []) = runes ''ffmpeg''"
    by (simp add: HookRunner_def default_runner_def)
  from Run_LookPath_error [OF lp, of False "runes ''-i test.mp4''"] st pth
  show ?thesis by auto
qed

text \<open>
  Claim C5. \<open>Run\<close> returns the result of the wait as it is: in every run that reaches
  the wait, a return value of \<open>Run\<close> is the value \<^verbatim>\<open>cmd.Wait()\<close> reported for the
  terminated process (so it is nil exactly when that value is nil), \<^verbatim>\<open>cmd.Wait()\<close> has
  returned exactly once, and once the process has terminated the caller's remaining steps
  end in that return.
\<close>

theorem Run_returns_Wait_result:
  assumes "Run sys r fired arg sch = Some s"
    and "mpc (Run_launch sys r fired arg) = AtWait"
  shows "(\<forall>x. mpc s = Returned x \<longrightarrow>
            proc s = Exited x \<and> filter is_Wait_return (trace s) = [Wait_return x])
    \<and> (\<forall>e. proc s = Exited e \<and> wpc s \<noteq> WPanicked \<longrightarrow>
            (\<exists>s'. exec (finish_main s) s = Some s' \<and> mpc s' = Returned e \<and>
                  filter is_Wait_return (trace s') = [Wait_return e]))
    \<and> Wait_returns s \<le> 1"
proof -
  have inv: "racing r s" using assms by (rule Run_racing)
  have a: "\<forall>x. mpc s = Returned x \<longrightarrow>
            proc s = Exited x \<and> filter is_Wait_return (trace s) = [Wait_return x]"
    using inv by (blast intro: racing_Returned racing_Wait_once)
  have b: "\<forall>e. proc s = Exited e \<and> wpc s \<noteq> WPanicked \<longrightarrow>
            (\<exists>s'. exec (finish_main s) s = Some s' \<and> mpc s' = Returned e \<and>
                  filter is_Wait_return (trace s') = [Wait_return e])"
  proof (intro allI impI)
    fix e assume e: "proc s = Exited e \<and> wpc s \<noteq> WPanicked"
    with finish_main_returns [OF inv] obtain s' where
      s': "exec (finish_main s) s = Some s'" "mpc s' = Returned e" by blast
    from exec_racing [OF inv s'(1)] have "racing r s'" .
    from racing_Wait_once [OF this s'(2)] s'
    show "\<exists>s'. exec (finish_main s) s = Some s' \<and> mpc s' = Returned e \<and>
                  filter is_Wait_return (trace s') = [Wait_return e]" by blast
  qed
  have c: "Wait_returns s \<le> 1" using inv by (simp add: racing_def main_ok_def)
  from a b c show ?thesis by blast
qed

theorem Run_returns_Wait_result_witness:
  "(\<exists>s. Run demo_os (HookRunner []) False (runes ''-i test.mp4'')
            [ProcExit (Some (Error ''exit status 1'')), MainWait, MainClose, MainReturn] = Some s
        \<and> mpc s = Returned (Some (Error ''exit status 1''))
        \<and> proc s = Exited (Some (Error ''exit status 1''))
        \<and> filter is_Wait_return (trace s) = [Wait_return (Some (Error ''exit status 1''))])
   \<and> (\<exists>s s'. Run demo_os (HookRunner []) False (runes ''-i test.mp4'') [ProcExit None] = Some s
        \<and> exec (finish_main s) s = Some s' \<and> mpc s' = Returned None)"
proof -
  let ?arg = "runes ''-i test.mp4''"
  let ?e = "Some (Error ''exit status 1'')"
  have launched: "mpc (Run_launch demo_os (HookRunner []) False ?arg) = AtWait"
    by (simp add: eval_defs)
  have "\<exists>s. Run demo_os (HookRunner []) False ?arg
            [ProcExit ?e, MainWait, MainClose, MainReturn] = Some s \<and> mpc s = Returned ?e"
    by (simp add: eval_defs)
  then obtain s1 where s1: "Run demo_os (HookRunner []) False ?arg
            [ProcExit ?e, MainWait, MainClose, MainReturn] = Some s1" "mpc s1 = Returned ?e"
    by blast
  from Run_returns_Wait_result [OF s1(1) launched] s1(2)
  have a: "proc s1 = Exited ?e \<and> filter is_Wait_return (trace s1) = [Wait_return ?e]" by blast
  have "\<exists>s. Run demo_os (HookRunner []) False ?arg [ProcExit None] = Some s
      \<and> proc s = Exited None \<and> wpc s \<noteq> WPanicked"
    by (simp add: eval_defs)
  then obtain s2 where s2: "Run demo_os (HookRunner []) False ?arg [ProcExit None] = Some s2"
    "proc s2 = Exited None \<and> wpc s2 \<noteq> WPanicked" by blast
  from Run_returns_Wait_result [OF s2(1) launched] s2(2)
  have b: "\<exists>s'. exec (finish_main s2) s2 = Some s' \<and> mpc s' = Returned None" by blast
  from s1 a s2(1) b show ?thesis by blast
qed

text \<open>
  Claim C6. For every argument string, \<open>Run\<close> splits it into tokens purely on runs of
  whitespace, with no shell interpretation and no quoting: \<^verbatim>\<open>-i test.mp4\<close> yields exactly
  the two tokens \<^verbatim>\<open>-i\<close> and \<^verbatim>\<open>test.mp4\<close>, and leading or trailing whitespace
  produces no empty token. Stated for \<open>Fields\<close>: no token is empty, no token contains
  whitespace, the tokens in order are the string with its whitespace removed, whitespace
  before and after is ignored, a maximal whitespace-free stretch followed by whitespace is
  one token, quotes and dollar signs are ordinary characters; and the tokens of the
  argument string are what \<open>Run\<close> passes to \<open>Command\<close> after the resolved path,
  unchanged, before it calls the pre hook or starts the command.
\<close>

theorem Fields_splits_on_whitespace_runs:
  "Fields (runes ''-i test.mp4'') = [runes ''-i'', runes ''test.mp4'']
   \<and> Fields (runes '' -i  test.mp4 '') = [runes ''-i'', runes ''test.mp4'']
   \<and> Fields (runes ''-metadata title=\"a b\" $HOME'')
       = [runes ''-metadata'', runes ''title=\"a'', runes ''b\"'', runes ''$HOME'']
   \<and> [] \<notin> set (Fields s)
   \<and> (\<forall>t\<in>set (Fields s). \<forall>c\<in>set t. \<not> IsSpace c)
   \<and> concat (Fields s) = filter (\<lambda>c. \<not> IsSpace c) s
   \<and> ((\<forall>c\<in>set w. IsSpace c) \<longrightarrow> Fields (w @ s) = Fields s \<and> Fields (s @ w) = Fields s)
   \<and> (t \<noteq> [] \<and> (\<forall>c\<in>set t. \<not> IsSpace c) \<and> IsSpace d \<longrightarrow> Fields (t @ d # s) = t # Fields s)
   \<and> (t \<noteq> [] \<and> (\<forall>c\<in>set t. \<not> IsSpace c) \<longrightarrow> Fields t = [t])
   \<and> (LookPath sys (path r) = Inr p \<and> Run sys r fired s sch = Some st \<longrightarrow>
        take 3 (trace st) =
          [LookPath_call (path r), Command_call p (Fields s),
           (case pre r of
              None \<Rightarrow> Start_call (Command p (Fields s))
            | Some h \<Rightarrow> pre_call (Command p (Fields s)))]
        \<and> Args (Command p (Fields s)) = p # Fields s)"
proof -
  have ex1: "Fields (runes ''-i test.mp4'') = [runes ''-i'', runes ''test.mp4'']"
    by (simp add: Fields_def runes_def IsSpace_def)
  have ex2: "Fields (runes '' -i  test.mp4 '') = [runes ''-i'', runes ''test.mp4'']"
    by (simp add: Fields_def runes_def IsSpace_def)
  have ex3: "Fields (runes ''-metadata title=\"a b\" $HOME'')
       = [runes ''-metadata'', runes ''title=\"a'', runes ''b\"'', runes ''$HOME'']"
    by (simp add: Fields_def runes_def IsSpace_def)
  have nonempty: "[] \<notin> set (Fields s)"
    by (simp add: Fields_def fields_from_nonempty)
  have nospace: "\<forall>t\<in>set (Fields s). \<forall>c\<in>set t. \<not> IsSpace c"
    using fields_from_nospace by (auto simp: Fields_def)
  have cat: "concat (Fields s) = filter (\<lambda>c. \<not> IsSpace c) s"
    by (simp add: Fields_def fields_from_concat)
  have ends: "(\<forall>c\<in>set w. IsSpace c) \<longrightarrow> Fields (w @ s) = Fields s \<and> Fields (s @ w) = Fields s"
    by (simp add: Fields_def fields_from_skip fields_from_trailing)
  have tok: "t \<noteq> [] \<and> (\<forall>c\<in>set t. \<not> IsSpace c) \<and> IsSpace d \<longrightarrow> Fields (t @ d # s) = t # Fields s"
    by (simp add: Fields_def fields_from_token)
  have last: "t \<noteq> [] \<and> (\<forall>c\<in>set t. \<not> IsSpace c) \<longrightarrow> Fields t = [t]"
    using fields_from_token [of t "[]" "[]"] by (simp add: Fields_def)
  have run: "LookPath sys (path r) = Inr p \<and> Run sys r fired s sch = Some st \<longrightarrow>
        take 3 (trace st) =
          [LookPath_call (path r), Command_call p (Fields s),
           (case pre r of
              None \<Rightarrow> Start_call (Command p (Fields s))
            | Some h \<Rightarrow> pre_call (Command p (Fields s)))]
        \<and> Args (Command p (Fields s)) = p # Fields s"
    using Run_trace_prefix [of sys r p fired s sch st] by (simp add: Command_def)
  from ex1 ex2 ex3 nonempty nospace cat ends tok last run show ?thesis by blast
qed

theorem Fields_splits_on_whitespace_runs_witness:
  "Fields (runes ''  '' @ runes ''-i test.mp4'') = [runes ''-i'', runes ''test.mp4'']
   \<and> Fields (runes ''-i test.mp4'' @ runes ''  '') = [runes ''-i'', runes ''test.mp4'']
   \<and> Fields (runes ''-i'' @ 32 # runes ''-i test.mp4'') = [runes ''-i'', runes ''-i'', runes ''test.mp4'']
   \<and> Fields (runes ''-i'') = [runes ''-i'']
   \<and> take 3 (trace (Run_launch demo_os (HookRunner []) False (runes ''-i test.mp4''))) =
         [LookPath_call (runes ''ffmpeg''),
          Command_call (runes ''/usr/bin/ffmpeg'') [runes ''-i'', runes ''test.mp4''],
          Start_call (Command (runes ''/usr/bin/ffmpeg'') [runes ''-i'', runes ''test.mp4''])]"
proof -
  let ?arg = "runes ''-i test.mp4''"
  let ?st = "Run_launch demo_os (HookRunner []) False ?arg"
  have sp: "\<forall>c\<in>set (runes ''  ''). IsSpace c"
    by (simp add: runes_def IsSpace_def)
  have tk: "runes ''-i'' \<noteq> [] \<and> (\<forall>c\<in>set (runes ''-i''). \<not> IsSpace c) \<and> IsSpace 32"
    by (simp add: runes_def IsSpace_def)
  have lp: "LookPath demo_os (path (HookRunner [])) = Inr (runes ''/usr/bin/ffmpeg'')"
    by (simp add: demo_os_def HookRunner_def default_runner_def runes_def)
  have run: "Run demo_os (HookRunner []) False ?arg [] = Some ?st"
    by (simp add: Run_def)
  have pth: "path (HookRunner []) = runes ''ffmpeg''" "pre (HookRunner []) = None"
    by (simp_all add: HookRunner_def default_runner_def)
  note inst = Fields_splits_on_whitespace_runs
    [where s = "?arg" and w = "runes ''  ''" and t = "runes ''-i''" and d = 32
       and sys = demo_os and r = "HookRunner []" and p = "runes ''/usr/bin/ffmpeg''"
       and fired = False and sch = "[]" and st = "?st"]
  from inst sp have a: "Fields (runes ''  '' @ ?arg) = Fields ?arg"
    and b: "Fields (?arg @ runes ''  '') = Fields ?arg" by blast+
  from inst tk have c: "Fields (runes ''-i'' @ 32 # ?arg) = runes ''-i'' # Fields ?arg"
    and d: "Fields (runes ''-i'') = [runes ''-i'']" by blast+
  from inst have e: "Fields ?arg = [runes ''-i'', runes ''test.mp4'']" by blast
  from inst lp run have f: "take 3 (trace ?st) =
          [LookPath_call (path (HookRunner [])), Command_call (runes ''/usr/bin/ffmpeg'') (Fields ?arg),
           (case pre (HookRunner []) of
              None \<Rightarrow> Start_call (Command (runes ''/usr/bin/ffmpeg'') (Fields ?arg))
            | Some h \<Rightarrow> pre_call (Command (runes ''/usr/bin/ffmpeg'') (Fields ?arg)))]"
    by blast
  from a b c d e f pth show ?thesis by simp
qed

text \<open>
  Claim C7. When starting the command fails, \<open>Run\<close> returns that error, and no post
  hook runs, no watcher is spawned and no wait is performed: the start is the last thing
  \<open>Run\<close> ever does.
\<close>

theorem Run_Start_error:
  assumes "LookPath sys (path r) = Inr p"
    and "pre r = None \<and> c = Command p (Fields arg)
         \<or> (\<exists>h. pre r = Some h \<and> h (Command p (Fields arg)) = Some (None, c))"
    and "cmd_Start sys c = (Some e, c')"
  shows "mpc (Run_launch sys r fired arg) = Returned (Some e)
    \<and> (\<forall>sch st. Run sys r fired arg sch = Some st \<longrightarrow>
          mpc st = Returned (Some e) \<and>
          trace st = [LookPath_call (path r), Command_call p (Fields arg)]
                     @ (if pre r = None then [] else [pre_call (Command p (Fields arg))])
                     @ [Start_call c] \<and>
          proc st = NotStarted \<and> wpc st = NotSpawned)"
proof -
  let ?s = "Run_launch sys r fired arg"
  have facts: "mpc ?s = Returned (Some e)"
    "trace ?s = [LookPath_call (path r), Command_call p (Fields arg)]
                 @ (if pre r = None then [] else [pre_call (Command p (Fields arg))])
                 @ [Start_call c]"
    "idle ?s"
    using assms by (auto simp: Run_launch_defs Let_def idle_def)
  with idle_Run [of sys r fired arg] show ?thesis by simp
qed

theorem Run_Start_error_witness:
  "mpc (Run_launch no_spawn_os (HookRunner []) False (runes ''-i test.mp4''))
     = Returned (Some (Error ''fork/exec: resource temporarily unavailable''))
   \<and> (\<exists>st. Run no_spawn_os (HookRunner []) False (runes ''-i test.mp4'') [Cancel] = Some st
        \<and> mpc st = Returned (Some (Error ''fork/exec: resource temporarily unavailable''))
        \<and> trace st =
            [LookPath_call (runes ''ffmpeg''),
             Command_call (runes ''/usr/bin/ffmpeg'') [runes ''-i'', runes ''test.mp4''],
             Start_call (Command (runes ''/usr/bin/ffmpeg'') [runes ''-i'', runes ''test.mp4''])]
        \<and> proc st = NotStarted \<and> wpc st = NotSpawned)"
proof -
  let ?r = "HookRunner []"
  let ?arg = "runes ''-i test.mp4''"
  let ?p = "runes ''/usr/bin/ffmpeg''"
  let ?e = "Error ''fork/exec: resource temporarily unavailable''"
  have r: "path ?r = runes ''ffmpeg''" "pre ?r = None"
    by (simp_all add: eval_defs)
  have lp: "LookPath no_spawn_os (path ?r) = Inr ?p"
    by (simp add: eval_defs runes_def)
  have pre: "pre ?r = None \<and> Command ?p (Fields ?arg) = Command ?p (Fields ?arg)
         \<or> (\<exists>h. pre ?r = Some h \<and> h (Command ?p (Fields ?arg)) = Some (None, Command ?p (Fields ?arg)))"
    using r(2) by simp
  have start: "cmd_Start no_spawn_os (Command ?p (Fields ?arg)) = (Some ?e, Command ?p (Fields ?arg))"
    by (simp add: cmd_Start_def Command_def no_spawn_os_def)
  have fl: "Fields ?arg = [runes ''-i'', runes ''test.mp4'']"
    by (simp add: Fields_def runes_def IsSpace_def)
  have "\<exists>st. Run no_spawn_os ?r False ?arg [Cancel] = Some st"
    by (simp add: eval_defs)
  then obtain st where st: "Run no_spawn_os ?r False ?arg [Cancel] = Some st" ..
  from Run_Start_error [OF lp pre start, of False] st r fl show ?thesis by auto
qed

text \<open>
  Claim C8. The constructor called with no options produces a runner whose executable
  path is the fixed name \<^verbatim>\<open>ffmpeg\<close>, which \<open>Run\<close> resolves through \<open>LookPath\<close>,
  whose pre and post hooks are nil, and whose exit hook sends the kill signal to the
  process of the command; in a run where the context is cancelled and the watcher takes
  that branch, the process handle has received exactly that signal.
\<close>

theorem HookRunner_defaults:
  "path (HookRunner []) = runes ''ffmpeg''
   \<and> pre (HookRunner []) = None
   \<and> post (HookRunner []) = None
   \<and> exit (HookRunner []) = Some kill_hook
   \<and> kill_hook (c\<lparr>Process := Some pr\<rparr>)
       = Some (c\<lparr>Process := Some (pr\<lparr>sent := sent pr @ [SIGKILL]\<rparr>)\<rparr>)
   \<and> hd (trace (Run_launch sys (HookRunner []) fired arg)) = LookPath_call (runes ''ffmpeg'')
   \<and> (\<exists>st k. Run demo_os (HookRunner []) False (runes ''-i test.mp4'') [Cancel, WatchDone] = Some st
         \<and> cmd st = Some k \<and> Process k = Some \<lparr>Pid = 4242, sent = [SIGKILL]\<rparr>)"
proof -
  have a: "HookRunner [] = default_runner" by (simp add: HookRunner_def)
  have b: "kill_hook (c\<lparr>Process := Some pr\<rparr>)
       = Some (c\<lparr>Process := Some (pr\<lparr>sent := sent pr @ [SIGKILL]\<rparr>)\<rparr>)"
    by (simp add: kill_hook_def Kill_def)
  have c: "hd (trace (Run_launch sys (HookRunner []) fired arg)) = LookPath_call (runes ''ffmpeg'')"
    by (simp add: a default_runner_def Run_launch_defs Let_def
        split: sum.splits option.splits prod.splits)
  have d: "\<exists>st k. Run demo_os (HookRunner []) False (runes ''-i test.mp4'') [Cancel, WatchDone] = Some st
         \<and> cmd st = Some k \<and> Process k = Some \<lparr>Pid = 4242, sent = [SIGKILL]\<rparr>"
    by (simp add: eval_defs)
  from a b c d show ?thesis by (simp add: default_runner_def)
qed

text \<open>
  Claim C9. The hooks and the path are fixed at construction, by applying the option
  functions in order to the default runner (each option sets its own field), and every
  \<open>Run\<close> leaves the runner as it was: at every moment of every run the receiver is the
  runner \<open>Run\<close> was called on.
\<close>

theorem HookRunner_options_fixed:
  "HookRunner [] = default_runner
   \<and> HookRunner (opts @ [opt]) = opt (HookRunner opts)
   \<and> HookRunner [CustomPath p, PreHook h1, PostHook h2, DoneHook h3]
       = \<lparr>path = p, pre = h1, post = h2, exit = h3\<rparr>
   \<and> recv (Run_launch sys r fired arg) = r
   \<and> (Run sys r fired arg sch = Some st \<longrightarrow> recv st = r)"
proof -
  have a: "HookRunner [] = default_runner" by (simp add: HookRunner_def)
  have b: "HookRunner (opts @ [opt]) = opt (HookRunner opts)" by (simp add: HookRunner_def)
  have c: "HookRunner [CustomPath p, PreHook h1, PostHook h2, DoneHook h3]
       = \<lparr>path = p, pre = h1, post = h2, exit = h3\<rparr>"
    by (simp add: HookRunner_def default_runner_def CustomPath_def PreHook_def PostHook_def
        DoneHook_def)
  have d: "recv (Run_launch sys r fired arg) = r"
    by (simp add: Run_launch_defs Let_def split: sum.splits option.splits prod.splits)
  have e: "Run sys r fired arg sch = Some st \<longrightarrow> recv st = r"
    using exec_recv [of sch "Run_launch sys r fired arg" st] d by (simp add: Run_def)
  from a b c d e show ?thesis by blast
qed

theorem HookRunner_options_fixed_witness:
  "\<exists>st. Run demo_os (HookRunner [CustomPath (runes ''/opt/ffmpeg''), DoneHook None]) False
           (runes ''-i test.mp4'') [Cancel, WatchDone, ProcExit None, MainWait, MainClose, MainReturn]
         = Some st
       \<and> recv st = \<lparr>path = runes ''/opt/ffmpeg'', pre = None, post = None, exit = None\<rparr>"
proof -
  let ?r = "HookRunner [CustomPath (runes ''/opt/ffmpeg''), DoneHook None]"
  let ?sch = "[Cancel, WatchDone, ProcExit None, MainWait, MainClose, MainReturn]"
  have "\<exists>st. Run demo_os ?r False (runes ''-i test.mp4'') ?sch = Some st"
    by (simp add: eval_defs)
  then obtain st where st: "Run demo_os ?r False (runes ''-i test.mp4'') ?sch = Some st" ..
  have r: "?r = \<lparr>path = runes ''/opt/ffmpeg'', pre = None, post = None, exit = None\<rparr>"
    by (simp add: eval_defs)
  from HookRunner_options_fixed
    [where sys = demo_os and r = "?r" and fired = False and arg = "runes ''-i test.mp4''"
       and sch = "?sch" and st = st] st
  have "recv st = ?r" by blast
  with st r show ?thesis by simp
qed

text \<open>
  Claim C10. For every argument string that is empty or consists only of whitespace, the
  split produces an empty argument list and the executable is invoked with zero positional
  arguments: the command \<open>Run\<close> builds, and hands to the pre hook or else starts, is
  \<open>Command p []\<close>, whose \<open>Args\<close> hold the resolved path and nothing else.
\<close>

theorem Run_blank_arg:
  assumes "\<forall>c\<in>set arg. IsSpace c"
    and "LookPath sys (path r) = Inr p"
    and "Run sys r fired arg sch = Some st"
  shows "Fields arg = []
    \<and> take 3 (trace st) =
         [LookPath_call (path r), Command_call p [],
          (case pre r of
             None \<Rightarrow> Start_call (Command p [])
           | Some h \<Rightarrow> pre_call (Command p []))]
    \<and> Args (Command p []) = [p]"
proof -
  from assms(1) have blank: "Fields arg = []"
    by (simp add: Fields_def fields_from_empty_iff)
  from Run_trace_prefix [OF assms(2,3), unfolded blank] blank show ?thesis
    by (simp add: Command_def)
qed

theorem Run_blank_arg_witness:
  "Fields (runes ''   '') = []
   \<and> take 3 (trace (Run_launch demo_os (HookRunner []) False (runes ''   ''))) =
        [LookPath_call (runes ''ffmpeg''), Command_call (runes ''/usr/bin/ffmpeg'') [],
         Start_call (Command (runes ''/usr/bin/ffmpeg'') [])]
   \<and> Args (Command (runes ''/usr/bin/ffmpeg'') []) = [runes ''/usr/bin/ffmpeg'']"
proof -
  have sp: "\<forall>c\<in>set (runes ''   ''). IsSpace c"
    by (simp add: runes_def IsSpace_def)
  have lp: "LookPath demo_os (path (HookRunner [])) = Inr (runes ''/usr/bin/ffmpeg'')"
    by (simp add: demo_os_def HookRunner_def default_runner_def runes_def)
  have run: "Run demo_os (HookRunner []) False (runes ''   '') []
      = Some (Run_launch demo_os (HookRunner []) False (runes ''   ''))"
    by (simp add: Run_def)
  have pth: "path (HookRunner []) = runes ''ffmpeg''" "pre (HookRunner []) = None"
    by (simp_all add: HookRunner_def default_runner_def)
  from Run_blank_arg [OF sp lp run] pth show ?thesis by simp
qed

end
